theory Spec2Isabelle
  imports Complex_Main "HOL-Library.Log_Nat"
begin

section \<open>JavaScript numbers\<close>

text \<open>
  The component computes with JavaScript numbers, which are IEEE 754 doubles. Three
  non-finite values take part in its control flow: \<open>Math.max()\<close> of no arguments is
  \<open>-Infinity\<close>, the snap-point scan starts from \<open>Infinity\<close>, and \<open>NaN\<close> is falsy and
  compares false with everything. They are kept as constructors. A finite number is the
  real it denotes. Addition, multiplication and division round their exact result to the
  nearest double, ties to even, and overflow to an infinity (\<open>to_double\<close>); negation,
  \<open>Math.abs\<close>, \<open>Math.max\<close>, \<open>Math.min\<close> and the comparisons are exact. The sign of zero
  is not modelled: \<open>-0\<close> and \<open>0\<close> are one value, as they are for \<open>===\<close>, \<open><\<close> and
  \<open>||\<close>.
\<close>

datatype jsnum = NaN | NInf | Fin real | PInf

text \<open>\<open>Number.MAX_VALUE\<close>, the largest finite double.\<close>

definition MAX_VALUE :: real where
  "MAX_VALUE = (2 ^ 53 - 1) * 2 ^ 971"

text \<open>
  Rounding to a double. The doubles are the multiples of \<open>2 ^ -1074\<close> whose quotient by
  their unit in the last place is below \<open>2 ^ 53\<close>. For a non-negative \<open>a\<close>, \<open>ulp_shift a\<close>
  is the exponent of that unit over \<open>2 ^ -1074\<close>: zero in the subnormal range and in the
  lowest normal binade, and the number of bits of \<open>a / 2 ^ -1074\<close> beyond 53 above.
  \<open>nearest_double a\<close> rounds \<open>a\<close> to a multiple of the unit, a tie going to the even
  multiple; \<open>to_double\<close> rounds the magnitude, keeps the sign, and gives an infinity when the
  rounded magnitude exceeds \<open>Number.MAX_VALUE\<close>.
\<close>

definition round_half_even :: "real \<Rightarrow> int" where
  "round_half_even q =
     (if q - of_int \<lfloor>q\<rfloor> < 1 / 2 then \<lfloor>q\<rfloor>
      else if 1 / 2 < q - of_int \<lfloor>q\<rfloor> then \<lfloor>q\<rfloor> + 1
      else if even \<lfloor>q\<rfloor> then \<lfloor>q\<rfloor>
      else \<lfloor>q\<rfloor> + 1)"

definition denorm_exp :: nat where
  "denorm_exp = 1074"

definition ulp_shift :: "real \<Rightarrow> nat" where
  "ulp_shift a = nat (bitlen \<lfloor>a * 2 ^ denorm_exp\<rfloor> - 53)"

definition nearest_double :: "real \<Rightarrow> real" where
  "nearest_double a =
     of_int (round_half_even (a * 2 ^ denorm_exp / 2 ^ ulp_shift a)) * 2 ^ ulp_shift a
       / 2 ^ denorm_exp"

definition to_double :: "real \<Rightarrow> jsnum" where
  "to_double x =
     (if MAX_VALUE < nearest_double \<bar>x\<bar> then (if x < 0 then NInf else PInf)
      else Fin (if x < 0 then - nearest_double \<bar>x\<bar> else nearest_double \<bar>x\<bar>))"

text \<open>The numbers the program receives and holds are doubles.\<close>

definition double :: "real \<Rightarrow> bool" where
  "double x = (to_double x = Fin x)"

text \<open>The relational operators \<open><\<close> and \<open>===\<close>; any comparison with \<open>NaN\<close> is false.\<close>

fun js_lt :: "jsnum \<Rightarrow> jsnum \<Rightarrow> bool" where
  "js_lt NaN _ = False"
| "js_lt _ NaN = False"
| "js_lt NInf NInf = False"
| "js_lt NInf _ = True"
| "js_lt (Fin a) (Fin b) = (a < b)"
| "js_lt (Fin a) PInf = True"
| "js_lt (Fin a) NInf = False"
| "js_lt PInf _ = False"

definition js_gt :: "jsnum \<Rightarrow> jsnum \<Rightarrow> bool" where
  "js_gt a b = js_lt b a"

definition js_eq :: "jsnum \<Rightarrow> jsnum \<Rightarrow> bool" where
  "js_eq a b = (a \<noteq> NaN \<and> b \<noteq> NaN \<and> a = b)"

text \<open>\<open>a || b\<close> on numbers: \<open>0\<close> and \<open>NaN\<close> are the falsy ones.\<close>

definition truthy :: "jsnum \<Rightarrow> bool" where
  "truthy a = (a \<noteq> NaN \<and> a \<noteq> Fin 0)"

definition js_or :: "jsnum \<Rightarrow> jsnum \<Rightarrow> jsnum" where
  "js_or a b = (if truthy a then a else b)"

fun js_add :: "jsnum \<Rightarrow> jsnum \<Rightarrow> jsnum" where
  "js_add NaN _ = NaN"
| "js_add _ NaN = NaN"
| "js_add (Fin a) (Fin b) = to_double (a + b)"
| "js_add PInf NInf = NaN"
| "js_add NInf PInf = NaN"
| "js_add PInf _ = PInf"
| "js_add NInf _ = NInf"
| "js_add (Fin a) b = b"

fun js_neg :: "jsnum \<Rightarrow> jsnum" where
  "js_neg NaN = NaN"
| "js_neg NInf = PInf"
| "js_neg (Fin a) = Fin (- a)"
| "js_neg PInf = NInf"

definition js_sub :: "jsnum \<Rightarrow> jsnum \<Rightarrow> jsnum" where
  "js_sub a b = js_add a (js_neg b)"

text \<open>The sign of a number that is not \<open>NaN\<close>: \<open>-1\<close>, \<open>0\<close> or \<open>1\<close>.\<close>

fun js_sign :: "jsnum \<Rightarrow> int" where
  "js_sign NaN = 0"
| "js_sign NInf = - 1"
| "js_sign (Fin a) = (if a < 0 then - 1 else if a = 0 then 0 else 1)"
| "js_sign PInf = 1"

definition signed_inf :: "int \<Rightarrow> jsnum" where
  "signed_inf k = (if k < 0 then NInf else PInf)"

fun js_mul :: "jsnum \<Rightarrow> jsnum \<Rightarrow> jsnum" where
  "js_mul NaN _ = NaN"
| "js_mul _ NaN = NaN"
| "js_mul (Fin a) (Fin b) = to_double (a * b)"
| "js_mul a b =
     (if js_sign a = 0 \<or> js_sign b = 0 then NaN else signed_inf (js_sign a * js_sign b))"

text \<open>
  Division. A finite nonzero number over zero is an infinity, zero over zero and
  infinity over infinity are \<open>NaN\<close>, a finite number over an infinity is zero, and any
  other quotient of finite numbers is rounded. A zero divisor is taken as \<open>+0\<close>: the
  program divides by the two snap extrema, whose quotients it passes through \<open>Math.abs\<close>,
  and by the configured \<open>swipeDamping\<close>.
\<close>

fun js_div :: "jsnum \<Rightarrow> jsnum \<Rightarrow> jsnum" where
  "js_div NaN _ = NaN"
| "js_div _ NaN = NaN"
| "js_div (Fin a) (Fin b) =
     (if b = 0 then (if a = 0 then NaN else signed_inf (js_sign (Fin a)))
      else to_double (a / b))"
| "js_div (Fin a) _ = Fin 0"
| "js_div a (Fin b) = signed_inf (js_sign a * (if b < 0 then - 1 else 1))"
| "js_div _ _ = NaN"

fun Math_abs :: "jsnum \<Rightarrow> jsnum" where
  "Math_abs NaN = NaN"
| "Math_abs NInf = PInf"
| "Math_abs (Fin a) = Fin \<bar>a\<bar>"
| "Math_abs PInf = PInf"

text \<open>\<open>Math.max\<close> and \<open>Math.min\<close> of two arguments: \<open>NaN\<close> if either is.\<close>

definition Math_max2 :: "jsnum \<Rightarrow> jsnum \<Rightarrow> jsnum" where
  "Math_max2 a b = (if a = NaN \<or> b = NaN then NaN else if js_lt a b then b else a)"

definition Math_min2 :: "jsnum \<Rightarrow> jsnum \<Rightarrow> jsnum" where
  "Math_min2 a b = (if a = NaN \<or> b = NaN then NaN else if js_lt b a then b else a)"

text \<open>\<open>Math.max(...xs)\<close>: \<open>-Infinity\<close> when \<open>xs\<close> is empty.\<close>

fun Math_max :: "jsnum list \<Rightarrow> jsnum" where
  "Math_max [] = NInf"
| "Math_max (x # xs) = Math_max2 x (Math_max xs)"

section \<open>Configuration and the snap catalog\<close>

datatype OpenDirection = LEFT | RIGHT | NONE

text \<open>
  The props the position logic reads, with their defaults in \<open>defaultProps\<close>. The
  configured numbers are finite doubles.
\<close>

record Props =
  snapPointsLeft :: "real list"
  snapPointsRight :: "real list"
  activationThreshold :: real
  overSwipe :: real
  swipeDamping :: real

definition defaultProps :: Props where
  "defaultProps = \<lparr> snapPointsLeft = [], snapPointsRight = [], activationThreshold = 20,
     overSwipe = 20, swipeDamping = 10 \<rparr>"

definition maxSnapPointLeft :: "Props \<Rightarrow> jsnum" where
  "maxSnapPointLeft props =
     js_mul (Fin (- 1)) (js_or (Math_max (map Fin (snapPointsLeft props))) (Fin 0))"

definition maxSnapPointRight :: "Props \<Rightarrow> jsnum" where
  "maxSnapPointRight props = js_or (Math_max (map Fin (snapPointsRight props))) (Fin 0)"

definition maxTranslateLeft :: "Props \<Rightarrow> jsnum" where
  "maxTranslateLeft props = js_sub (maxSnapPointLeft props) (Fin (overSwipe props))"

definition maxTranslateRight :: "Props \<Rightarrow> jsnum" where
  "maxTranslateRight props = js_add (maxSnapPointRight props) (Fin (overSwipe props))"

definition hasLeft :: "Props \<Rightarrow> bool" where
  "hasLeft props = (length (snapPointsLeft props) \<noteq> 0)"

definition hasRight :: "Props \<Rightarrow> bool" where
  "hasRight props = (length (snapPointsRight props) \<noteq> 0)"

definition activeOffsetL :: "Props \<Rightarrow> OpenDirection \<Rightarrow> real" where
  "activeOffsetL props od =
     (if hasLeft props \<or> od = RIGHT then - activationThreshold props else - MAX_VALUE)"

definition activeOffsetR :: "Props \<Rightarrow> OpenDirection \<Rightarrow> real" where
  "activeOffsetR props od =
     (if hasRight props \<or> od = LEFT then activationThreshold props else MAX_VALUE)"

definition activeOffsetX :: "Props \<Rightarrow> OpenDirection \<Rightarrow> real \<times> real" where
  "activeOffsetX props od = (activeOffsetL props od, activeOffsetR props od)"

section \<open>Position state and the spring primitive\<close>

text \<open>
  A completion callback handed to \<open>withSpring\<close>. The component builds two kinds: the
  \<open>resolvePromiseIfFinished\<close> closure of an imperative call, which holds the
  \<open>resolve\<close> function of that call's promise (promises are numbered in creation order),
  and the \<open>onComplete\<close> closure of a gesture release, which holds the chosen snap point.
\<close>

datatype callback = ResolvePromiseIfFinished nat | OnComplete jsnum

text \<open>What has happened to promises: the source only ever calls \<open>resolve\<close>.\<close>

datatype settlement = Resolved nat | Rejected nat

record state =
  animStatePos :: jsnum
  isGestureActive :: bool
  openDirection :: OpenDirection
  startX :: jsnum
  animation :: "(jsnum \<times> callback) option"
  nextPromise :: nat
  settlements :: "settlement list"
  changes :: "(OpenDirection \<times> jsnum) list"

text \<open>
  The state after mounting: closed, nothing in flight, no promise created, \<open>onChange\<close>
  never called. \<open>ctx.startX\<close> is undefined before the first \<open>onStart\<close>; in the sum
  of \<open>onActive\<close> an undefined operand gives \<open>NaN\<close>.
\<close>

definition initial :: state where
  "initial = \<lparr> animStatePos = Fin 0, isGestureActive = False, openDirection = NONE,
     startX = NaN, animation = None, nextPromise = 0, settlements = [], changes = [] \<rparr>"

definition swipingLeft :: "state \<Rightarrow> bool" where
  "swipingLeft s = js_lt (animStatePos s) (Fin 0)"

definition swipingRight :: "state \<Rightarrow> bool" where
  "swipingRight s = js_gt (animStatePos s) (Fin 0)"

definition percentOpenLeft :: "Props \<Rightarrow> state \<Rightarrow> jsnum" where
  "percentOpenLeft props s =
     (if swipingLeft s then Math_abs (js_div (animStatePos s) (maxSnapPointLeft props))
      else Fin 0)"

definition percentOpenRight :: "Props \<Rightarrow> state \<Rightarrow> jsnum" where
  "percentOpenRight props s =
     (if swipingRight s then Math_abs (js_div (animStatePos s) (maxSnapPointRight props))
      else Fin 0)"

definition onAnimationEnd :: "OpenDirection \<Rightarrow> jsnum \<Rightarrow> state \<Rightarrow> state" where
  "onAnimationEnd od snapPoint s =
     s\<lparr> openDirection := od, changes := changes s @ [(od, snapPoint)] \<rparr>"

text \<open>The constant \<open>openDirection\<close> that \<open>onComplete\<close> computes from the snap point.\<close>

definition onComplete_openDirection :: "jsnum \<Rightarrow> OpenDirection" where
  "onComplete_openDirection closestSnapPoint =
     (if js_eq closestSnapPoint (Fin 0) then NONE
      else if js_gt closestSnapPoint (Fin 0) then RIGHT
      else LEFT)"

definition onComplete :: "jsnum \<Rightarrow> state \<Rightarrow> state" where
  "onComplete closestSnapPoint s =
     onAnimationEnd (onComplete_openDirection closestSnapPoint) (Math_abs closestSnapPoint) s"

text \<open>
  Calling a completion callback with the \<open>isFinished\<close> flag. \<open>onComplete\<close> takes no
  parameter, so it runs whatever the flag is.
\<close>

fun run_callback :: "callback \<Rightarrow> bool \<Rightarrow> state \<Rightarrow> state" where
  "run_callback (ResolvePromiseIfFinished p) isFinished s =
     (if isFinished then s\<lparr> settlements := settlements s @ [Resolved p] \<rparr> else s)"
| "run_callback (OnComplete closestSnapPoint) isFinished s = onComplete closestSnapPoint s"

text \<open>
  Modelled from the spec: the spring primitive \<open>withSpring\<close> belongs to the animation
  library, not to the source. Its contract (spec sections 1 and 6) is to advance the
  value toward the target and to invoke the completion signal with a boolean, true for
  natural completion and false for interruption. An animation in flight is the pair of
  its target and its callback. Writing the shared value, with a number or with a new
  animation, interrupts the one in flight (\<open>interrupt\<close>); \<open>settle\<close> is the natural
  completion, and \<open>frame\<close> an intermediate value on the way.
\<close>

definition interrupt :: "state \<Rightarrow> state" where
  "interrupt s =
     (case animation s of
        None \<Rightarrow> s
      | Some (target, cb) \<Rightarrow> run_callback cb False (s\<lparr> animation := None \<rparr>))"

definition withSpring :: "jsnum \<Rightarrow> callback \<Rightarrow> state \<Rightarrow> state" where
  "withSpring toValue cb s = (interrupt s)\<lparr> animation := Some (toValue, cb) \<rparr>"

definition assign :: "jsnum \<Rightarrow> state \<Rightarrow> state" where
  "assign v s = (interrupt s)\<lparr> animStatePos := v \<rparr>"

definition settle :: "state \<Rightarrow> state" where
  "settle s =
     (case animation s of
        None \<Rightarrow> s
      | Some (target, cb) \<Rightarrow>
          run_callback cb True (s\<lparr> animation := None, animStatePos := target \<rparr>))"

definition frame :: "real \<Rightarrow> state \<Rightarrow> state" where
  "frame v s = (case animation s of None \<Rightarrow> s | Some a \<Rightarrow> s\<lparr> animStatePos := Fin v \<rparr>)"

section \<open>Imperative calls\<close>

text \<open>
  Each call creates a promise and starts a spring whose callback resolves that promise
  when it is called with \<open>isFinished\<close>. The result is the promise and the new state.
\<close>

definition newPromise :: "jsnum \<Rightarrow> state \<Rightarrow> nat \<times> state" where
  "newPromise toValue s =
     (nextPromise s,
      withSpring toValue (ResolvePromiseIfFinished (nextPromise s))
        (s\<lparr> nextPromise := Suc (nextPromise s) \<rparr>))"

definition openLeft :: "Props \<Rightarrow> jsnum option \<Rightarrow> state \<Rightarrow> nat \<times> state" where
  "openLeft props snapPoint s =
     newPromise (case snapPoint of Some p \<Rightarrow> p | None \<Rightarrow> maxSnapPointLeft props) s"

definition openRight :: "Props \<Rightarrow> jsnum option \<Rightarrow> state \<Rightarrow> nat \<times> state" where
  "openRight props snapPoint s =
     newPromise (case snapPoint of Some p \<Rightarrow> p | None \<Rightarrow> maxSnapPointRight props) s"

definition close :: "state \<Rightarrow> nat \<times> state" where
  "close s = newPromise (Fin 0) s"

text \<open>The \<open>open\<close> of the imperative handle.\<close>

definition ref_open :: "Props \<Rightarrow> OpenDirection \<Rightarrow> jsnum option \<Rightarrow> state \<Rightarrow> nat \<times> state" where
  "ref_open props od snapPoint s =
     (if od = LEFT then openLeft props snapPoint s
      else if od = RIGHT then openRight props snapPoint s
      else close s)"

section \<open>Gesture handlers\<close>

record PanEvent =
  translationX :: real
  velocityX :: real

definition onStart :: "state \<Rightarrow> state" where
  "onStart s = s\<lparr> startX := animStatePos s, isGestureActive := True \<rparr>"

definition clampedVal :: "Props \<Rightarrow> real \<Rightarrow> jsnum \<Rightarrow> jsnum" where
  "clampedVal props translation start =
     Math_min2 (Math_max2 (maxTranslateLeft props) (js_add (Fin translation) start))
       (maxTranslateRight props)"

definition onActive :: "Props \<Rightarrow> PanEvent \<Rightarrow> state \<Rightarrow> state" where
  "onActive props evt s = assign (clampedVal props (translationX evt) (startX s)) s"

definition velocityModifiedPosition :: "Props \<Rightarrow> PanEvent \<Rightarrow> state \<Rightarrow> jsnum" where
  "velocityModifiedPosition props evt s =
     js_add (animStatePos s) (js_div (Fin (velocityX evt)) (Fin (swipeDamping props)))"

definition allSnapPoints :: "Props \<Rightarrow> real list" where
  "allSnapPoints props =
     (map (\<lambda>p. p * - 1) (snapPointsLeft props) @ snapPointsRight props) @ [0]"

text \<open>
  The \<open>reduce\<close> over the snap points, from the accumulator \<open>Infinity\<close>. \<open>diff\<close> is
  the distance the callback computes, for the current point (\<open>diff\<close>) and for the
  accumulator (\<open>prevDiff\<close>).
\<close>

definition diff :: "jsnum \<Rightarrow> jsnum \<Rightarrow> jsnum" where
  "diff pos cur = Math_abs (js_sub pos cur)"

definition closer :: "jsnum \<Rightarrow> jsnum \<Rightarrow> jsnum \<Rightarrow> jsnum" where
  "closer pos cur acc = (if js_lt (diff pos cur) (diff pos acc) then cur else acc)"

definition closestSnapPoint :: "Props \<Rightarrow> PanEvent \<Rightarrow> state \<Rightarrow> jsnum" where
  "closestSnapPoint props evt s =
     fold (closer (velocityModifiedPosition props evt s)) (map Fin (allSnapPoints props)) PInf"

definition onEnd :: "Props \<Rightarrow> PanEvent \<Rightarrow> state \<Rightarrow> state" where
  "onEnd props evt s =
     (let s1 = s\<lparr> isGestureActive := False \<rparr>;
          target = closestSnapPoint props evt s1
      in if js_eq (animStatePos s1) target then onComplete target s1
         else withSpring target (OnComplete target) s1)"

section \<open>Events on one row\<close>

datatype event =
    CallOpen OpenDirection "jsnum option"
  | CallClose
  | GestureStart
  | GestureActive PanEvent
  | GestureEnd PanEvent
  | Settle
  | Frame real

fun step :: "Props \<Rightarrow> event \<Rightarrow> state \<Rightarrow> state" where
  "step props (CallOpen od snapPoint) s = snd (ref_open props od snapPoint s)"
| "step props CallClose s = snd (close s)"
| "step props GestureStart s = onStart s"
| "step props (GestureActive evt) s = onActive props evt s"
| "step props (GestureEnd evt) s = onEnd props evt s"
| "step props Settle s = settle s"
| "step props (Frame v) s = frame v s"

definition run :: "Props \<Rightarrow> event list \<Rightarrow> state \<Rightarrow> state" where
  "run props evs s = fold (step props) evs s"

text \<open>
  Modelled from the spec: the gesture recognizer belongs to the gesture library, not to
  the source. It is configured with \<open>activeOffsetX\<close> (spec sections 4.2 and 6): the
  gesture activates once the finger's translation leaves the interval between the two
  offsets. \<open>drag\<close> feeds a stream of translations to the handlers: samples before
  activation are dropped, \<open>onStart\<close> runs at activation, and \<open>onActive\<close> runs for the
  activating sample and every later one.
\<close>

definition activates :: "real \<times> real \<Rightarrow> real \<Rightarrow> bool" where
  "activates offsets tx = (tx < fst offsets \<or> snd offsets < tx)"

definition drag :: "Props \<Rightarrow> real list \<Rightarrow> state \<Rightarrow> state" where
  "drag props txs s =
     (case dropWhile (\<lambda>tx. \<not> activates (activeOffsetX props (openDirection s)) tx) txs of
        [] \<Rightarrow> s
      | active \<Rightarrow>
          fold (\<lambda>tx. onActive props \<lparr> translationX = tx, velocityX = 0 \<rparr>) active (onStart s))"

section \<open>Promise bookkeeping\<close>

text \<open>
  \<open>pending_callback p\<close>: the callback of the spring in flight holds the \<open>resolve\<close> of
  promise \<open>p\<close>. A state is well formed when every recorded settlement is the resolution
  of a promise already created, none is recorded twice, and the promise held by the
  spring in flight is created and not yet resolved.
\<close>

definition pending_callback :: "nat \<Rightarrow> state \<Rightarrow> bool" where
  "pending_callback p s =
     (case animation s of
        Some (target, ResolvePromiseIfFinished q) \<Rightarrow> q = p
      | _ \<Rightarrow> False)"

definition created_resolution :: "state \<Rightarrow> settlement \<Rightarrow> bool" where
  "created_resolution s x = (case x of Resolved q \<Rightarrow> q < nextPromise s | Rejected q \<Rightarrow> False)"

definition well_formed :: "state \<Rightarrow> bool" where
  "well_formed s =
     (distinct (settlements s)
      \<and> list_all (created_resolution s) (settlements s)
      \<and> (case animation s of
            Some (target, ResolvePromiseIfFinished q) \<Rightarrow>
              q < nextPromise s \<and> Resolved q \<notin> set (settlements s)
          | _ \<Rightarrow> True))"

text \<open>
  A promise is abandoned when it has been created, has not been resolved, and no
  callback in flight holds its \<open>resolve\<close>.
\<close>

definition abandoned :: "nat \<Rightarrow> state \<Rightarrow> bool" where
  "abandoned p s =
     (p < nextPromise s \<and> Resolved p \<notin> set (settlements s) \<and> \<not> pending_callback p s)"

section \<open>Distances\<close>

text \<open>
  The values a distance from a finite position to a finite point can take: \<open>Infinity\<close>,
  when the difference overflows, or a finite number.
\<close>

definition distance_value :: "jsnum \<Rightarrow> bool" where
  "distance_value v = (v = PInf \<or> (\<exists>d. v = Fin d))"

section \<open>Example configurations\<close>

text \<open>
  The defaults with snap points on the left only, on the right only, and on both sides.
\<close>

definition leftOnly :: Props where
  "leftOnly = \<lparr> snapPointsLeft = [150], snapPointsRight = [], activationThreshold = 20,
     overSwipe = 20, swipeDamping = 10 \<rparr>"

definition rightOnly :: Props where
  "rightOnly = \<lparr> snapPointsLeft = [], snapPointsRight = [80, 160], activationThreshold = 20,
     overSwipe = 20, swipeDamping = 10 \<rparr>"

definition bothSides :: Props where
  "bothSides = \<lparr> snapPointsLeft = [80], snapPointsRight = [80, 160], activationThreshold = 20,
     overSwipe = 20, swipeDamping = 10 \<rparr>"

definition rightSingle :: Props where
  "rightSingle = \<lparr> snapPointsLeft = [], snapPointsRight = [80], activationThreshold = 20,
     overSwipe = 20, swipeDamping = 10 \<rparr>"

text \<open>The double nearest to 39.9.\<close>

definition near_39_9 :: real where
  "near_39_9 = 5615425785377587 / 2 ^ 47"

definition pan :: "real \<Rightarrow> real \<Rightarrow> PanEvent" where
  "pan tx vx = \<lparr> translationX = tx, velocityX = vx \<rparr>"

section \<open>Rounding\<close>

lemma round_half_even_of_int [simp]: "round_half_even (of_int n) = n"
  by (simp add: round_half_even_def)

lemma round_half_even_0 [simp]: "round_half_even 0 = 0"
  by (simp add: round_half_even_def)

lemma round_half_even_nonneg: "0 \<le> q \<Longrightarrow> 0 \<le> round_half_even q"
  by (auto simp: round_half_even_def)

lemma round_half_even_le: "q \<le> of_int m \<Longrightarrow> round_half_even q \<le> m"
proof -
  assume q: "q \<le> of_int m"
  then have f: "\<lfloor>q\<rfloor> \<le> m" by (simp add: floor_le_iff)
  show ?thesis
  proof (cases "\<lfloor>q\<rfloor> = m")
    case True
    then have "q = of_int \<lfloor>q\<rfloor>" using q of_int_floor_le [of q] by linarith
    then have "q - of_int \<lfloor>q\<rfloor> < 1 / 2" by simp
    then show ?thesis using True by (simp add: round_half_even_def)
  next
    case False
    then have "\<lfloor>q\<rfloor> + 1 \<le> m" using f by linarith
    then show ?thesis using f by (auto simp: round_half_even_def)
  qed
qed

lemma denorm_exp_ge: "53 \<le> denorm_exp"
  by (simp add: denorm_exp_def)

lemma MAX_VALUE_ge: "2 ^ 53 \<le> MAX_VALUE"
  unfolding MAX_VALUE_def by simp

lemma nearest_double_nonneg: "0 \<le> a \<Longrightarrow> 0 \<le> nearest_double a"
  unfolding nearest_double_def
  by (intro divide_nonneg_nonneg mult_nonneg_nonneg) (simp_all add: round_half_even_nonneg)

lemma divide_power2_le: "0 \<le> (a::real) \<Longrightarrow> a / 2 ^ t \<le> a"
proof -
  assume a: "0 \<le> a"
  have "1 \<le> (2::real) ^ t" by simp
  then have "a * 1 \<le> a * 2 ^ t" using a by (intro mult_left_mono)
  then show ?thesis by (simp add: divide_le_eq)
qed

text \<open>A dyadic number with a significand below \<open>2 ^ 53\<close> is a double.\<close>

lemma nearest_double_dyadic:
  assumes "0 < n" and "n < 2 ^ 53" and "t \<le> denorm_exp"
  shows "nearest_double (of_int n / 2 ^ t) = of_int n / 2 ^ t"
proof -
  obtain u where u: "denorm_exp = t + u"
    using assms(3) by (metis le_Suc_ex)
  have b: "1 \<le> bitlen n" "bitlen n \<le> 53"
    using assms by (auto simp: bitlen_le_iff_power bitlen_ge_iff_power)
  have A: "real_of_int n / 2 ^ t * 2 ^ denorm_exp = of_int (n * 2 ^ u)"
    unfolding u by (simp add: power_add)
  define k where "k = nat (bitlen n + int u - 53)"
  have s: "ulp_shift (of_int n / 2 ^ t) = k"
    unfolding ulp_shift_def A floor_of_int k_def using assms(1) by simp
  have "k \<le> u" using b by (simp add: k_def)
  then obtain j where j: "u = k + j" by (metis le_Suc_ex)
  have q: "real_of_int (n * 2 ^ u) / 2 ^ k = of_int (n * 2 ^ j)"
    unfolding j by (simp add: power_add)
  have "nearest_double (of_int n / 2 ^ t) = of_int (n * 2 ^ j) * 2 ^ k / 2 ^ denorm_exp"
    unfolding nearest_double_def s A q round_half_even_of_int ..
  also have "\<dots> = of_int n / 2 ^ t"
    unfolding u j by (simp add: power_add)
  finally show ?thesis .
qed

lemma nearest_double_0 [simp]: "nearest_double 0 = 0"
  by (simp add: nearest_double_def)

lemma to_double_dyadic:
  assumes "\<bar>n\<bar> < 2 ^ 53" and "t \<le> denorm_exp"
  shows "to_double (of_int n / 2 ^ t) = Fin (of_int n / 2 ^ t)"
proof (cases "n = 0")
  case True
  then show ?thesis using MAX_VALUE_ge by (simp add: to_double_def)
next
  case False
  then have "0 < \<bar>n\<bar>" by simp
  then have n: "nearest_double \<bar>real_of_int n / 2 ^ t\<bar> = of_int \<bar>n\<bar> / 2 ^ t"
    using nearest_double_dyadic [of "\<bar>n\<bar>" t] assms by (simp add: abs_divide)
  have "real_of_int \<bar>n\<bar> < 2 ^ 53" using assms(1)
    by (metis of_int_less_numeral_power_cancel_iff)
  moreover have "real_of_int \<bar>n\<bar> / 2 ^ t \<le> real_of_int \<bar>n\<bar>"
    by (intro divide_power2_le) simp
  ultimately have "\<not> MAX_VALUE < of_int \<bar>n\<bar> / 2 ^ t" using MAX_VALUE_ge by linarith
  moreover have "real_of_int n / 2 ^ t < 0 \<longleftrightarrow> n < 0"
    by (simp add: divide_less_0_iff)
  ultimately show ?thesis unfolding to_double_def n by auto
qed

lemma to_double_of_int: "\<bar>n\<bar> < 2 ^ 53 \<Longrightarrow> to_double (of_int n) = Fin (of_int n)"
  using to_double_dyadic [of n 0] by simp

lemma to_double_numeral [simp]:
  "(numeral w :: real) < 2 ^ 53 \<Longrightarrow> to_double (numeral w) = Fin (numeral w)"
  "(numeral w :: real) < 2 ^ 53 \<Longrightarrow> to_double (- numeral w) = Fin (- numeral w)"
  "to_double 0 = Fin 0" "to_double 1 = Fin 1" "to_double (- 1) = Fin (- 1)"
  using to_double_of_int [of "numeral w"] to_double_of_int [of "- numeral w"]
    to_double_of_int [of 0] to_double_of_int [of 1] to_double_of_int [of "- 1"]
  by simp_all

text \<open>Rounding in a binade given by its scale: \<open>2 ^ 52 \<le> x * 2 ^ t < 2 ^ 53\<close>.\<close>

lemma nearest_double_scaled:
  assumes "t \<le> denorm_exp" and "2 ^ 52 \<le> x * 2 ^ t" and "x * 2 ^ t < 2 ^ 53"
  shows "nearest_double x = of_int (round_half_even (x * 2 ^ t)) / 2 ^ t"
proof -
  obtain u where u: "denorm_exp = t + u"
    using assms(1) by (metis le_Suc_ex)
  have A: "x * 2 ^ denorm_exp = x * 2 ^ t * 2 ^ u"
    unfolding u by (simp add: power_add)
  have lo: "(2::int) ^ (52 + u) \<le> \<lfloor>x * 2 ^ denorm_exp\<rfloor>"
  proof -
    have "(2::real) ^ (52 + u) \<le> x * 2 ^ denorm_exp"
      unfolding A power_add using assms(2) by (simp add: mult_right_mono)
    then show ?thesis by (simp add: le_floor_iff)
  qed
  have hi: "\<lfloor>x * 2 ^ denorm_exp\<rfloor> < (2::int) ^ (53 + u)"
  proof -
    have "x * 2 ^ denorm_exp < (2::real) ^ (53 + u)"
      unfolding A power_add using assms(3) by (simp add: mult_strict_right_mono)
    then show ?thesis by (simp add: floor_less_iff)
  qed
  have "bitlen \<lfloor>x * 2 ^ denorm_exp\<rfloor> = 53 + int u"
  proof (rule antisym)
    show "bitlen \<lfloor>x * 2 ^ denorm_exp\<rfloor> \<le> 53 + int u"
      using hi by (simp add: bitlen_le_iff_power nat_add_distrib)
    show "53 + int u \<le> bitlen \<lfloor>x * 2 ^ denorm_exp\<rfloor>"
      using lo by (simp add: bitlen_ge_iff_power nat_add_distrib)
  qed
  then have s: "ulp_shift x = u"
    by (simp add: ulp_shift_def)
  have q: "x * 2 ^ denorm_exp / 2 ^ u = x * 2 ^ t"
    unfolding A by simp
  have "nearest_double x = of_int (round_half_even (x * 2 ^ t)) * 2 ^ u / 2 ^ denorm_exp"
    unfolding nearest_double_def s q ..
  also have "\<dots> = of_int (round_half_even (x * 2 ^ t)) / 2 ^ t"
    unfolding u by (simp add: power_add)
  finally show ?thesis .
qed

lemma to_double_scaled:
  assumes "0 \<le> x" and "t \<le> denorm_exp" and "2 ^ 52 \<le> x * 2 ^ t" and "x * 2 ^ t < 2 ^ 53"
  shows "to_double x = Fin (of_int (round_half_even (x * 2 ^ t)) / 2 ^ t)"
proof -
  have n: "nearest_double \<bar>x\<bar> = of_int (round_half_even (x * 2 ^ t)) / 2 ^ t"
    using nearest_double_scaled [OF assms(2-4)] assms(1) by simp
  have "round_half_even (x * 2 ^ t) \<le> 2 ^ 53"
    using assms(4) by (intro round_half_even_le) simp
  then have "real_of_int (round_half_even (x * 2 ^ t)) \<le> 2 ^ 53"
    by (metis of_int_le_numeral_power_cancel_iff)
  moreover have "real_of_int (round_half_even (x * 2 ^ t)) / 2 ^ t
      \<le> real_of_int (round_half_even (x * 2 ^ t))"
    using assms(1) by (intro divide_power2_le) (simp add: round_half_even_nonneg)
  ultimately have "\<not> MAX_VALUE < of_int (round_half_even (x * 2 ^ t)) / 2 ^ t"
    using MAX_VALUE_ge by linarith
  then show ?thesis unfolding to_double_def n using assms(1) by auto
qed

lemma to_double_not_NaN [simp]: "to_double x \<noteq> NaN"
  by (simp add: to_double_def)

lemma to_double_bounded: "to_double x = Fin r \<Longrightarrow> \<bar>r\<bar> \<le> MAX_VALUE"
  using nearest_double_nonneg [of "\<bar>x\<bar>"]
  by (auto simp: to_double_def split: if_splits)

lemma to_double_nonneg:
  "0 \<le> x \<Longrightarrow> to_double x = PInf \<or> (\<exists>r. to_double x = Fin r \<and> 0 \<le> r)"
  using nearest_double_nonneg [of "\<bar>x\<bar>"] MAX_VALUE_ge by (auto simp: to_double_def)

lemma MAX_VALUE_pos: "0 < MAX_VALUE"
  unfolding MAX_VALUE_def by simp

lemma to_double_nonpos:
  "x \<le> 0 \<Longrightarrow> to_double x = NInf \<or> (\<exists>r. to_double x = Fin r \<and> r \<le> 0)"
proof (cases "x = 0")
  case True
  then show ?thesis using MAX_VALUE_pos by (simp add: to_double_def)
next
  case False
  assume "x \<le> 0"
  then have "x < 0" using False by simp
  then show ?thesis
    using nearest_double_nonneg [of "\<bar>x\<bar>"] by (auto simp: to_double_def)
qed

lemma to_double_minus: "to_double (- x) = js_neg (to_double x)"
  using MAX_VALUE_pos by (auto simp: to_double_def)

lemma MAX_VALUE_scaled: "MAX_VALUE * 2 ^ denorm_exp = (2 ^ 53 - 1) * 2 ^ (971 + denorm_exp)"
  by (simp add: MAX_VALUE_def power_add)

lemma nearest_double_le_MAX:
  assumes "0 \<le> a" and "a \<le> MAX_VALUE"
  shows "nearest_double a \<le> MAX_VALUE"
proof -
  define K where "K = 971 + denorm_exp"
  define A where "A = a * 2 ^ denorm_exp"
  define n where "n = \<lfloor>A\<rfloor>"
  define k where "k = ulp_shift a"
  define m where "m = round_half_even (A / 2 ^ k)"
  have k_def': "k = nat (bitlen n - 53)"
    by (simp add: k_def ulp_shift_def n_def A_def)
  have A0: "0 \<le> A" using assms(1) by (simp add: A_def)
  have AK: "A \<le> (2 ^ 53 - 1) * 2 ^ K"
    unfolding A_def K_def MAX_VALUE_scaled [symmetric]
    using assms(2) by (simp add: mult_right_mono)
  have m0: "0 \<le> m"
    unfolding m_def using A0 by (intro round_half_even_nonneg) simp
  have "A < 2 ^ 53 * 2 ^ K"
  proof -
    have "(2 ^ 53 - 1) * 2 ^ K < (2 ^ 53 :: real) * 2 ^ K"
      by (intro mult_strict_right_mono) simp_all
    then show ?thesis using AK by linarith
  qed
  then have "A < 2 ^ (53 + K)" by (simp add: power_add)
  then have "n < 2 ^ (53 + K)" unfolding n_def by (simp add: floor_less_iff)
  then have "n < 2 ^ nat (int (53 + K))" by (simp only: nat_int)
  then have "bitlen n \<le> int (53 + K)"
    by (subst bitlen_le_iff_power) (rule conjI, rule of_nat_0_le_iff, assumption)
  then have kK: "k \<le> K" by (simp add: k_def')
  have main: "real_of_int m * 2 ^ k \<le> (2 ^ 53 - 1) * 2 ^ K"
  proof (cases "k = K")
    case True
    have "A / 2 ^ K \<le> real_of_int (2 ^ 53 - 1)"
      using AK by (simp add: divide_le_eq)
    then have "m \<le> 2 ^ 53 - 1"
      unfolding m_def True by (rule round_half_even_le)
    then have "real_of_int m \<le> real_of_int (2 ^ 53 - 1)"
      by (simp only: of_int_le_iff)
    then have "real_of_int m \<le> 2 ^ 53 - 1"
      by simp
    then show ?thesis unfolding True by (intro mult_right_mono) simp_all
  next
    case False
    then have k1: "Suc k \<le> K" using kK by simp
    have "n < 2 ^ (53 + k)"
    proof (cases "0 < n")
      case True
      have "bitlen n \<le> int (53 + k)" by (simp add: k_def')
      then have "0 \<le> int (53 + k) \<and> n < 2 ^ nat (int (53 + k))"
        by (subst (asm) bitlen_le_iff_power)
      then show ?thesis by (simp only: nat_int)
    next
      case False
      then have "n \<le> 0" by simp
      also have "(0::int) < 2 ^ (53 + k)" by simp
      finally show ?thesis .
    qed
    then have "n + 1 \<le> 2 ^ (53 + k)" by simp
    then have "real_of_int (n + 1) \<le> real_of_int (2 ^ (53 + k))"
      by (simp only: of_int_le_iff)
    then have "real_of_int (n + 1) \<le> 2 ^ (53 + k)"
      by simp
    moreover have "A < real_of_int (n + 1)"
      unfolding n_def using floor_correct [of A] by simp
    ultimately have "A < 2 ^ 53 * 2 ^ k" by (simp add: power_add)
    then have "A / 2 ^ k \<le> real_of_int (2 ^ 53)"
      by (simp add: divide_le_eq)
    then have "m \<le> 2 ^ 53" unfolding m_def by (rule round_half_even_le)
    then have "real_of_int m \<le> real_of_int (2 ^ 53)"
      by (simp only: of_int_le_iff)
    then have "real_of_int m \<le> 2 ^ 53"
      by simp
    then have "real_of_int m * 2 ^ k \<le> 2 ^ 53 * 2 ^ k"
      by (intro mult_right_mono) simp_all
    also have "\<dots> = 2 ^ 52 * (2::real) ^ Suc k" by simp
    also have "\<dots> \<le> 2 ^ 52 * (2::real) ^ K"
      using k1 by (intro mult_left_mono power_increasing) simp_all
    also have "\<dots> \<le> (2 ^ 53 - 1) * (2::real) ^ K"
      by (intro mult_right_mono) simp_all
    finally show ?thesis .
  qed
  have "nearest_double a = real_of_int m * 2 ^ k / 2 ^ denorm_exp"
    by (simp add: nearest_double_def m_def k_def A_def)
  also have "\<dots> \<le> (2 ^ 53 - 1) * 2 ^ K / 2 ^ denorm_exp"
    using main by (intro divide_right_mono) simp_all
  also have "\<dots> = MAX_VALUE"
    by (simp add: K_def MAX_VALUE_def power_add)
  finally show ?thesis .
qed

lemma to_double_finite: "\<bar>x\<bar> \<le> MAX_VALUE \<Longrightarrow> \<exists>r. to_double x = Fin r"
  using nearest_double_le_MAX [of "\<bar>x\<bar>"] by (simp add: to_double_def)

lemma js_add_Fin_bounded: "js_add a b = Fin x \<Longrightarrow> \<bar>x\<bar> \<le> MAX_VALUE"
  by (cases a; cases b) (auto dest: to_double_bounded)


section \<open>Basic facts\<close>

lemma run_callback_fields [simp]:
  "animation (run_callback cb b s) = animation s"
  "animStatePos (run_callback cb b s) = animStatePos s"
  "startX (run_callback cb b s) = startX s"
  "isGestureActive (run_callback cb b s) = isGestureActive s"
  "nextPromise (run_callback cb b s) = nextPromise s"
  by (cases cb; simp add: onComplete_def onAnimationEnd_def)+

lemma interrupt_fields [simp]:
  "animation (interrupt s) = None"
  "animStatePos (interrupt s) = animStatePos s"
  "startX (interrupt s) = startX s"
  "isGestureActive (interrupt s) = isGestureActive s"
  "nextPromise (interrupt s) = nextPromise s"
  by (simp_all add: interrupt_def split: option.splits)


text \<open>
  A distance from a finite position to a finite point is \<open>Infinity\<close> or a non-negative
  finite number, and on such values \<open><\<close> is a strict linear order.
\<close>

lemma js_lt_PInf_left [simp]: "js_lt PInf v = False"
  by (cases v) simp_all

lemma diff_Fin_Fin: "diff (Fin x) (Fin c) = Math_abs (to_double (x - c))"
  by (simp add: diff_def js_sub_def)

lemma diff_distance_value: "distance_value (diff (Fin x) (Fin c))"
  unfolding diff_Fin_Fin distance_value_def
  by (cases "to_double (x - c)") simp_all

lemma diff_Fin_PInf: "diff (Fin x) PInf = PInf"
  by (simp add: diff_def js_sub_def)

lemma distance_value_order:
  assumes "distance_value u" and "distance_value v" and "distance_value w"
  shows "\<not> js_lt u u"
    and "js_lt u v \<Longrightarrow> js_lt v w \<Longrightarrow> js_lt u w"
    and "js_lt u v \<Longrightarrow> \<not> js_lt w v \<Longrightarrow> js_lt u w"
    and "\<not> js_lt u v \<Longrightarrow> \<not> js_lt v w \<Longrightarrow> \<not> js_lt u w"
    and "js_lt u PInf \<longleftrightarrow> u \<noteq> PInf"
  using assms by (auto simp: distance_value_def)

lemma closer_Fin_PInf:
  "closer (Fin x) (Fin c) PInf = (if diff (Fin x) (Fin c) = PInf then PInf else Fin c)"
  using diff_distance_value [of x c]
  by (auto simp: closer_def diff_Fin_PInf distance_value_def)

lemma fold_closer_invariant:
  "(fold (closer (Fin x)) (map Fin xs) PInf = PInf
      \<and> (\<forall>c\<in>set xs. diff (Fin x) (Fin c) = PInf))
   \<or> (\<exists>i<length xs. fold (closer (Fin x)) (map Fin xs) PInf = Fin (xs ! i)
        \<and> diff (Fin x) (Fin (xs ! i)) \<noteq> PInf
        \<and> (\<forall>j<length xs. \<not> js_lt (diff (Fin x) (Fin (xs ! j))) (diff (Fin x) (Fin (xs ! i))))
        \<and> (\<forall>j<i. js_lt (diff (Fin x) (Fin (xs ! i))) (diff (Fin x) (Fin (xs ! j)))))"
  (is "?none xs \<or> ?some xs")
proof (induction xs rule: rev_induct)
  case Nil
  then show ?case by simp
next
  case (snoc c xs)
  let ?D = "\<lambda>c. diff (Fin x) (Fin c)"
  note dv = diff_distance_value [of x]
  from snoc.IH show ?case
  proof
    assume none: "?none xs"
    show ?thesis
    proof (cases "?D c = PInf")
      case True
      then have "?none (xs @ [c])" using none by (simp add: closer_Fin_PInf)
      then show ?thesis ..
    next
      case False
      have r: "fold (closer (Fin x)) (map Fin (xs @ [c])) PInf = Fin ((xs @ [c]) ! length xs)"
        using False none by (simp add: closer_Fin_PInf)
      have lt: "\<forall>j<length xs. js_lt (?D c) (?D (xs ! j))"
        using none False distance_value_order(5) [OF dv dv dv, of c] by simp
      have le: "\<forall>j<length (xs @ [c]). \<not> js_lt (?D ((xs @ [c]) ! j)) (?D ((xs @ [c]) ! length xs))"
        using none distance_value_order(1) [OF dv dv dv, of c]
        by (auto simp: nth_append less_Suc_eq)
      have "?some (xs @ [c])"
        using r False le lt by (intro exI [of _ "length xs"]) (simp add: nth_append)
      then show ?thesis ..
    qed
  next
    assume "?some xs"
    then obtain i where i: "i < length xs"
      and res: "fold (closer (Fin x)) (map Fin xs) PInf = Fin (xs ! i)"
      and fin: "?D (xs ! i) \<noteq> PInf"
      and least: "\<forall>j<length xs. \<not> js_lt (?D (xs ! j)) (?D (xs ! i))"
      and first: "\<forall>j<i. js_lt (?D (xs ! i)) (?D (xs ! j))"
      by blast
    show ?thesis
    proof (cases "js_lt (?D c) (?D (xs ! i))")
      case True
      have r: "fold (closer (Fin x)) (map Fin (xs @ [c])) PInf = Fin ((xs @ [c]) ! length xs)"
        using True res by (simp add: closer_def)
      have cfin: "?D c \<noteq> PInf"
        using True by (cases "?D (xs ! i)") auto
      have lt: "\<forall>j<length xs. js_lt (?D c) (?D (xs ! j))"
        using True least distance_value_order(3) [OF dv dv dv] by blast
      have le: "\<forall>j<length (xs @ [c]). \<not> js_lt (?D ((xs @ [c]) ! j)) (?D ((xs @ [c]) ! length xs))"
      proof (intro allI impI)
        fix j assume "j < length (xs @ [c])"
        then consider "j < length xs" | "j = length xs" by fastforce
        then show "\<not> js_lt (?D ((xs @ [c]) ! j)) (?D ((xs @ [c]) ! length xs))"
        proof cases
          case 1
          have "\<not> js_lt (?D (xs ! j)) (?D c)"
          proof
            assume "js_lt (?D (xs ! j)) (?D c)"
            then have "js_lt (?D (xs ! j)) (?D (xs ! i))"
              using True distance_value_order(2) [OF dv dv dv] by blast
            then show False using least 1 by blast
          qed
          then show ?thesis using 1 by (simp add: nth_append)
        next
          case 2
          then show ?thesis using distance_value_order(1) [OF dv dv dv, of c] by simp
        qed
      qed
      have "?some (xs @ [c])"
        using r cfin le lt by (intro exI [of _ "length xs"]) (simp add: nth_append)
      then show ?thesis ..
    next
      case False
      have r: "fold (closer (Fin x)) (map Fin (xs @ [c])) PInf = Fin ((xs @ [c]) ! i)"
        using False res i by (simp add: closer_def nth_append)
      have le: "\<forall>j<length (xs @ [c]). \<not> js_lt (?D ((xs @ [c]) ! j)) (?D ((xs @ [c]) ! i))"
        using False least i by (auto simp: nth_append less_Suc_eq)
      have lt: "\<forall>j<i. js_lt (?D ((xs @ [c]) ! i)) (?D ((xs @ [c]) ! j))"
        using first i by (auto simp: nth_append)
      have "?some (xs @ [c])"
        using r fin le lt i by (intro exI [of _ i]) (simp add: nth_append)
      then show ?thesis ..
    qed
  qed
qed

text \<open>
  At a release where the velocity-adjusted position is finite, the target is a snap
  point at the least computed distance from it, and the first such point in the order of
  \<open>allSnapPoints\<close>.
\<close>

lemma finite_release_target_first_nearest:
  assumes "velocityModifiedPosition props evt s = Fin x"
  shows "\<exists>i<length (allSnapPoints props).
      closestSnapPoint props evt s = Fin (allSnapPoints props ! i)
      \<and> (\<forall>j<length (allSnapPoints props).
            \<not> js_lt (diff (Fin x) (Fin (allSnapPoints props ! j)))
                 (diff (Fin x) (Fin (allSnapPoints props ! i))))
      \<and> (\<forall>j<i. js_lt (diff (Fin x) (Fin (allSnapPoints props ! i)))
                 (diff (Fin x) (Fin (allSnapPoints props ! j))))"
proof -
  have "\<bar>x\<bar> \<le> MAX_VALUE"
    using assms unfolding velocityModifiedPosition_def by (rule js_add_Fin_bounded)
  then obtain r where "to_double x = Fin r"
    using to_double_finite by blast
  then have "diff (Fin x) (Fin 0) \<noteq> PInf"
    by (simp add: diff_Fin_Fin)
  moreover have "0 \<in> set (allSnapPoints props)"
    by (simp add: allSnapPoints_def)
  ultimately have "\<not> (\<forall>c\<in>set (allSnapPoints props). diff (Fin x) (Fin c) = PInf)"
    by blast
  then show ?thesis
    using fold_closer_invariant [of x "allSnapPoints props"]
    unfolding closestSnapPoint_def assms by blast
qed



lemma Math_max_Fin: "xs \<noteq> [] \<Longrightarrow> Math_max (map Fin xs) = Fin (Max (set xs))"
proof (induction xs)
  case Nil
  then show ?case by simp
next
  case (Cons x xs)
  show ?case
  proof (cases "xs = []")
    case True
    then show ?thesis by (simp add: Math_max2_def)
  next
    case False
    with Cons.IH have "Math_max (map Fin xs) = Fin (Max (set xs))" by simp
    then show ?thesis using False by (auto simp: Math_max2_def max_def)
  qed
qed

lemma MAX_VALUE_large: "1000 \<le> MAX_VALUE"
  unfolding MAX_VALUE_def by simp

lemma Math_max_cases: "Math_max (map Fin xs) = NInf \<or> (\<exists>m. Math_max (map Fin xs) = Fin m)"
  by (cases "xs = []") (simp_all add: Math_max_Fin)

lemma maxTranslateRight_not_NaN: "maxTranslateRight props \<noteq> NaN"
proof -
  have "maxSnapPointRight props = NInf \<or> (\<exists>v. maxSnapPointRight props = Fin v)"
    using Math_max_cases [of "snapPointsRight props"]
    by (auto simp: maxSnapPointRight_def js_or_def truthy_def)
  then show ?thesis by (auto simp: maxTranslateRight_def)
qed

text \<open>
  With no left snap points the lower travel bound is \<open>+Infinity\<close>, and every drag update
  from a finite start offset puts the offset at the upper travel bound, whatever the
  translation.
\<close>

lemma clampedVal_no_left:
  assumes "snapPointsLeft props = []"
  shows "clampedVal props tx (Fin st) = maxTranslateRight props"
proof -
  have l: "maxTranslateLeft props = PInf"
    using assms by (simp add: maxTranslateLeft_def maxSnapPointLeft_def js_or_def truthy_def
        signed_inf_def js_sub_def)
  have "Math_max2 PInf (to_double (tx + st)) = PInf"
    by (cases "to_double (tx + st)") (simp_all add: Math_max2_def)
  then show ?thesis
    using maxTranslateRight_not_NaN [of props]
    by (cases "maxTranslateRight props") (simp_all add: clampedVal_def l Math_min2_def)
qed

lemma maxTranslateRight_nonneg:
  assumes "snapPointsRight props \<noteq> []" and "\<forall>p\<in>set (snapPointsRight props). 0 < p"
    and "0 \<le> overSwipe props"
  shows "maxTranslateRight props = PInf \<or> (\<exists>h. maxTranslateRight props = Fin h \<and> 0 \<le> h)"
proof -
  have "Max (set (snapPointsRight props)) \<in> set (snapPointsRight props)"
    using assms(1) by (intro Max_in) simp_all
  then have pos: "0 < Max (set (snapPointsRight props))"
    using assms(2) by blast
  then have "maxTranslateRight props
      = to_double (Max (set (snapPointsRight props)) + overSwipe props)"
    using assms(1) by (simp add: maxTranslateRight_def maxSnapPointRight_def Math_max_Fin
        js_or_def truthy_def)
  then show ?thesis
    using to_double_nonneg [of "Max (set (snapPointsRight props)) + overSwipe props"] pos assms(3)
    by simp
qed

lemma maxTranslateLeft_nonpos:
  assumes "snapPointsLeft props \<noteq> []" and "\<forall>p\<in>set (snapPointsLeft props). 0 < p"
    and "0 \<le> overSwipe props"
  shows "maxTranslateLeft props = NInf \<or> (\<exists>l. maxTranslateLeft props = Fin l \<and> l \<le> 0)"
proof -
  have "Max (set (snapPointsLeft props)) \<in> set (snapPointsLeft props)"
    using assms(1) by (intro Max_in) simp_all
  then have pos: "0 < Max (set (snapPointsLeft props))"
    using assms(2) by blast
  then have m: "maxSnapPointLeft props = to_double (- Max (set (snapPointsLeft props)))"
    using assms(1) by (simp add: maxSnapPointLeft_def Math_max_Fin js_or_def truthy_def)
  from to_double_nonpos [of "- Max (set (snapPointsLeft props))"] pos
  consider "maxSnapPointLeft props = NInf" | l where "maxSnapPointLeft props = Fin l" "l \<le> 0"
    unfolding m by auto
  then show ?thesis
  proof cases
    case 1
    then show ?thesis by (simp add: maxTranslateLeft_def js_sub_def)
  next
    case 2
    then show ?thesis
      using to_double_nonpos [of "l - overSwipe props"] assms(3)
      by (simp add: maxTranslateLeft_def js_sub_def)
  qed
qed

text \<open>
  With positive snap points on both sides and a non-negative \<open>overSwipe\<close>, the lower
  travel bound is not above 0, the upper one not below 0, and a drag update from a finite
  start offset lies between them.
\<close>

lemma clampedVal_within_bounds:
  assumes "snapPointsLeft props \<noteq> []" and "\<forall>p\<in>set (snapPointsLeft props). 0 < p"
    and "snapPointsRight props \<noteq> []" and "\<forall>p\<in>set (snapPointsRight props). 0 < p"
    and "0 \<le> overSwipe props"
  shows "clampedVal props tx (Fin st) \<noteq> NaN
    \<and> \<not> js_lt (clampedVal props tx (Fin st)) (maxTranslateLeft props)
    \<and> \<not> js_lt (maxTranslateRight props) (clampedVal props tx (Fin st))"
proof -
  note l = maxTranslateLeft_nonpos [OF assms(1,2,5)]
  note h = maxTranslateRight_nonneg [OF assms(3,4,5)]
  have r: "to_double (tx + st) \<noteq> NaN" by simp
  show ?thesis
    using l h r unfolding clampedVal_def js_add.simps
    by (cases "to_double (tx + st)") (auto simp: Math_max2_def Math_min2_def)
qed

lemma fold_onActive_no_left:
  assumes "snapPointsLeft props = []"
  shows "startX s = Fin st \<Longrightarrow> txs \<noteq> [] \<Longrightarrow>
    animStatePos (fold (\<lambda>tx. onActive props \<lparr> translationX = tx, velocityX = 0 \<rparr>) txs s)
      = maxTranslateRight props"
proof (induction txs arbitrary: s)
  case Nil
  then show ?case by simp
next
  case (Cons tx txs)
  let ?s1 = "onActive props \<lparr> translationX = tx, velocityX = 0 \<rparr> s"
  have st: "startX ?s1 = Fin st" using Cons.prems(1) by (simp add: onActive_def assign_def)
  have pos: "animStatePos ?s1 = maxTranslateRight props"
    using Cons.prems(1) assms by (simp add: onActive_def assign_def clampedVal_no_left)
  show ?case
  proof (cases "txs = []")
    case True
    then show ?thesis using pos by simp
  next
    case False
    then show ?thesis using Cons.IH [OF st] by simp
  qed
qed

text \<open>
  With no left snap points, positive right snap points and a non-negative \<open>overSwipe\<close>,
  a drag that starts from the closed row never leaves the offset below 0: either the
  gesture does not activate, or the offset is the upper travel bound.
\<close>

lemma drag_no_left_from_closed:
  assumes left: "snapPointsLeft props = []" and od: "openDirection s = NONE"
    and pos: "animStatePos s = Fin 0" and over: "0 \<le> overSwipe props"
    and right: "\<forall>p\<in>set (snapPointsRight props). 0 < p"
    and rep: "\<forall>tx\<in>set txs. \<bar>tx\<bar> \<le> MAX_VALUE"
  shows "animStatePos (drag props txs s) = PInf
    \<or> (\<exists>v. animStatePos (drag props txs s) = Fin v \<and> 0 \<le> v)"
proof (cases "dropWhile (\<lambda>tx. \<not> activates (activeOffsetX props (openDirection s)) tx) txs")
  case Nil
  show ?thesis unfolding drag_def Nil using pos by simp
next
  case (Cons a rest)
  have "a \<in> set txs"
    using Cons by (metis list.set_intros(1) set_dropWhileD)
  then have a: "\<bar>a\<bar> \<le> MAX_VALUE" using rep by blast
  have "activates (activeOffsetX props (openDirection s)) a"
    using Cons by (metis hd_dropWhile list.distinct(1) list.sel(1))
  then have ne: "snapPointsRight props \<noteq> []"
    using a left od
    by (auto simp: activates_def activeOffsetX_def activeOffsetL_def activeOffsetR_def
        hasLeft_def hasRight_def)
  have "animStatePos (fold (\<lambda>tx. onActive props \<lparr> translationX = tx, velocityX = 0 \<rparr>)
      (a # rest) (onStart s)) = maxTranslateRight props"
    by (rule fold_onActive_no_left [OF left, of _ 0]) (simp_all add: onStart_def pos)
  then show ?thesis
    unfolding drag_def Cons using maxTranslateRight_nonneg [OF ne right over] by simp
qed

text \<open>The activation offsets, as the source computes them.\<close>

lemma activeOffsetX_thresholds:
  "activeOffsetX props od =
     (if snapPointsLeft props \<noteq> [] \<or> od = RIGHT then - activationThreshold props else - MAX_VALUE,
      if snapPointsRight props \<noteq> [] \<or> od = LEFT then activationThreshold props else MAX_VALUE)"
  by (simp add: activeOffsetX_def activeOffsetL_def activeOffsetR_def hasLeft_def hasRight_def)

lemma empty_side_never_activates:
  "snapPointsLeft props = [] \<Longrightarrow> od \<noteq> RIGHT \<Longrightarrow> - MAX_VALUE \<le> tx
     \<Longrightarrow> \<not> tx < fst (activeOffsetX props od)"
  "snapPointsRight props = [] \<Longrightarrow> od \<noteq> LEFT \<Longrightarrow> tx \<le> MAX_VALUE
     \<Longrightarrow> \<not> snd (activeOffsetX props od) < tx"
  by (simp_all add: activeOffsetX_thresholds)

lemmas eval_defs = run_def initial_def pan_def onStart_def onActive_def onEnd_def assign_def
  interrupt_def withSpring_def settle_def onComplete_def onAnimationEnd_def
  onComplete_openDirection_def clampedVal_def
  maxSnapPointLeft_def maxTranslateLeft_def maxSnapPointRight_def maxTranslateRight_def
  js_or_def truthy_def signed_inf_def js_sub_def js_eq_def js_gt_def Math_max2_def Math_min2_def
  closestSnapPoint_def velocityModifiedPosition_def allSnapPoints_def closer_def diff_def

subsection \<open>Promises\<close>

lemma ref_open_newPromise: "\<exists>t. ref_open props od sp s = newPromise t s"
  by (auto simp: ref_open_def openLeft_def openRight_def close_def)

lemma settlements_run_callback:
  "settlements (run_callback cb b s) =
     (case cb of
        ResolvePromiseIfFinished p \<Rightarrow> if b then settlements s @ [Resolved p] else settlements s
      | OnComplete c \<Rightarrow> settlements s)"
  by (cases cb) (simp_all add: onComplete_def onAnimationEnd_def)

lemma settlements_interrupt [simp]: "settlements (interrupt s) = settlements s"
  by (auto simp: interrupt_def settlements_run_callback split: option.splits callback.splits)

lemma settlements_onComplete [simp]: "settlements (onComplete c s) = settlements s"
  by (simp add: onComplete_def onAnimationEnd_def)

lemma fields_onComplete [simp]:
  "animation (onComplete c s) = animation s" "nextPromise (onComplete c s) = nextPromise s"
  by (simp_all add: onComplete_def onAnimationEnd_def)

lemma pending_callback_iff:
  "pending_callback p s \<longleftrightarrow> (\<exists>t. animation s = Some (t, ResolvePromiseIfFinished p))"
  by (auto simp: pending_callback_def split: option.splits callback.splits)

lemma created_resolution_iff:
  "created_resolution s x \<longleftrightarrow> (\<exists>q<nextPromise s. x = Resolved q)"
  by (cases x) (simp_all add: created_resolution_def)

lemma well_formed_iff:
  "well_formed s \<longleftrightarrow>
     distinct (settlements s)
     \<and> (\<forall>x\<in>set (settlements s). \<exists>q<nextPromise s. x = Resolved q)
     \<and> (\<forall>t q. animation s = Some (t, ResolvePromiseIfFinished q)
           \<longrightarrow> q < nextPromise s \<and> Resolved q \<notin> set (settlements s))"
  by (auto simp: well_formed_def created_resolution_iff list_all_iff
      split: option.splits callback.splits)

lemma abandoned_iff:
  "abandoned p s \<longleftrightarrow>
     p < nextPromise s \<and> Resolved p \<notin> set (settlements s)
     \<and> (\<forall>t. animation s \<noteq> Some (t, ResolvePromiseIfFinished p))"
  by (simp add: abandoned_def pending_callback_iff)

lemma well_formed_initial: "well_formed initial"
  by (simp add: well_formed_iff initial_def)

lemma well_formed_idle:
  "well_formed s \<Longrightarrow> animation s' = None \<Longrightarrow> settlements s' = settlements s
    \<Longrightarrow> nextPromise s' = nextPromise s \<Longrightarrow> well_formed s'"
  by (simp add: well_formed_iff)

lemma well_formed_same:
  "well_formed s \<Longrightarrow> animation s' = animation s \<Longrightarrow> settlements s' = settlements s
    \<Longrightarrow> nextPromise s' = nextPromise s \<Longrightarrow> well_formed s'"
  by (simp add: well_formed_iff)

lemma well_formed_settle: "well_formed s \<Longrightarrow> well_formed (settle s)"
proof (cases "animation s")
  case None
  then show "well_formed s \<Longrightarrow> ?thesis" by (simp add: settle_def)
next
  case (Some a)
  obtain t cb where a: "a = (t, cb)" by (cases a)
  assume wf: "well_formed s"
  show ?thesis
  proof (cases cb)
    case (ResolvePromiseIfFinished q)
    then show ?thesis using wf Some a
      by (auto simp: well_formed_iff settle_def intro: less_imp_le)
  next
    case (OnComplete c)
    then show ?thesis using wf Some a
      by (auto simp: well_formed_iff settle_def)
  qed
qed

lemma well_formed_newPromise: "well_formed s \<Longrightarrow> well_formed (snd (newPromise t s))"
  by (auto simp: well_formed_iff newPromise_def withSpring_def intro: less_SucI)

lemma well_formed_onEnd: "well_formed s \<Longrightarrow> well_formed (onEnd props evt s)"
  by (auto simp: well_formed_iff onEnd_def withSpring_def Let_def)

lemma well_formed_step: "well_formed s \<Longrightarrow> well_formed (step props e s)"
proof (cases e)
  case (CallOpen od sp)
  assume "well_formed s"
  then show ?thesis
    using CallOpen ref_open_newPromise [of props od sp s] well_formed_newPromise by auto
next
  case CallClose
  assume "well_formed s"
  then show ?thesis using CallClose by (simp add: close_def well_formed_newPromise)
next
  case GestureStart
  assume "well_formed s"
  then show ?thesis using GestureStart
    by (auto simp: onStart_def intro: well_formed_same)
next
  case (GestureActive evt)
  assume "well_formed s"
  then show ?thesis using GestureActive
    by (auto simp: onActive_def assign_def intro: well_formed_idle)
next
  case (GestureEnd evt)
  assume "well_formed s"
  then show ?thesis using GestureEnd by (simp add: well_formed_onEnd)
next
  case Settle
  assume "well_formed s"
  then show ?thesis using Settle by (simp add: well_formed_settle)
next
  case (Frame v)
  assume "well_formed s"
  then show ?thesis using Frame
    by (auto simp: frame_def split: option.splits intro: well_formed_same)
qed

lemma well_formed_run: "well_formed s \<Longrightarrow> well_formed (run props evs s)"
  unfolding run_def by (induction evs arbitrary: s) (simp_all add: well_formed_step)

lemma abandoned_idle:
  "abandoned p s \<Longrightarrow> animation s' = None \<Longrightarrow> settlements s' = settlements s
    \<Longrightarrow> nextPromise s' = nextPromise s \<Longrightarrow> abandoned p s'"
  by (simp add: abandoned_iff)

lemma abandoned_same:
  "abandoned p s \<Longrightarrow> animation s' = animation s \<Longrightarrow> settlements s' = settlements s
    \<Longrightarrow> nextPromise s' = nextPromise s \<Longrightarrow> abandoned p s'"
  by (simp add: abandoned_iff)

lemma abandoned_settle: "abandoned p s \<Longrightarrow> abandoned p (settle s)"
proof (cases "animation s")
  case None
  then show "abandoned p s \<Longrightarrow> ?thesis" by (simp add: settle_def)
next
  case (Some a)
  obtain t cb where a: "a = (t, cb)" by (cases a)
  assume ab: "abandoned p s"
  show ?thesis
    using ab Some a by (cases cb) (auto simp: abandoned_iff settle_def)
qed

lemma abandoned_newPromise: "abandoned p s \<Longrightarrow> abandoned p (snd (newPromise t s))"
  by (auto simp: abandoned_iff newPromise_def withSpring_def)

lemma abandoned_onEnd: "abandoned p s \<Longrightarrow> abandoned p (onEnd props evt s)"
  by (auto simp: abandoned_iff onEnd_def withSpring_def Let_def)

lemma abandoned_step: "abandoned p s \<Longrightarrow> abandoned p (step props e s)"
proof (cases e)
  case (CallOpen od sp)
  assume "abandoned p s"
  then show ?thesis
    using CallOpen ref_open_newPromise [of props od sp s] abandoned_newPromise by auto
next
  case CallClose
  assume "abandoned p s"
  then show ?thesis using CallClose by (simp add: close_def abandoned_newPromise)
next
  case GestureStart
  assume "abandoned p s"
  then show ?thesis using GestureStart
    by (auto simp: onStart_def intro: abandoned_same)
next
  case (GestureActive evt)
  assume "abandoned p s"
  then show ?thesis using GestureActive
    by (auto simp: onActive_def assign_def intro: abandoned_idle)
next
  case (GestureEnd evt)
  assume "abandoned p s"
  then show ?thesis using GestureEnd by (simp add: abandoned_onEnd)
next
  case Settle
  assume "abandoned p s"
  then show ?thesis using Settle by (simp add: abandoned_settle)
next
  case (Frame v)
  assume "abandoned p s"
  then show ?thesis using Frame
    by (auto simp: frame_def split: option.splits intro: abandoned_same)
qed

lemma abandoned_run: "abandoned p s \<Longrightarrow> abandoned p (run props evs s)"
  unfolding run_def by (induction evs arbitrary: s) (simp_all add: abandoned_step)

lemma superseded_abandoned:
  assumes "well_formed s"
  shows "abandoned (fst (newPromise t s)) (snd (newPromise t' (snd (newPromise t s))))"
  using assms
  by (auto simp: abandoned_iff newPromise_def withSpring_def well_formed_iff)

lemma settlements_newPromise [simp]: "settlements (snd (newPromise t s)) = settlements s"
  by (simp add: newPromise_def withSpring_def)

lemma settlements_onEnd [simp]: "settlements (onEnd props evt s) = settlements s"
  by (simp add: onEnd_def withSpring_def Let_def)

lemma settlements_settle_mono: "x \<in> set (settlements s) \<Longrightarrow> x \<in> set (settlements (settle s))"
  by (auto simp: settle_def settlements_run_callback split: option.splits callback.splits)

lemma settlements_step_mono:
  "x \<in> set (settlements s) \<Longrightarrow> x \<in> set (settlements (step props e s))"
proof (cases e)
  case (CallOpen od sp)
  assume "x \<in> set (settlements s)"
  then show ?thesis
    using CallOpen ref_open_newPromise [of props od sp s] by auto
next
  case Settle
  assume "x \<in> set (settlements s)"
  then show ?thesis using Settle by (simp add: settlements_settle_mono)
qed (simp_all add: close_def onStart_def onActive_def assign_def frame_def split: option.splits)

lemma settlements_run_mono:
  "x \<in> set (settlements s) \<Longrightarrow> x \<in> set (settlements (run props evs s))"
  unfolding run_def by (induction evs arbitrary: s) (simp_all add: settlements_step_mono)

lemma distinct_count_list: "distinct xs \<Longrightarrow> count_list xs x = (if x \<in> set xs then 1 else 0)"
  by (induction xs) auto

section \<open>Snap catalog\<close>

text \<open>
  Claim C1 says that an empty snap-point list counts as 0, so that
  \<open>maxSnapLeft = -max(snapPointsLeft \<union> {0})\<close>, \<open>maxSnapRight = max(snapPointsRight \<union> {0})\<close>
  and both travel bounds are finite. The source writes \<open>Math.max(...points) || 0\<close>, and
  \<open>Math.max()\<close> of no arguments is \<open>-Infinity\<close>, which is truthy: the fallback to 0 is
  never taken for an empty list. The theorem evaluates the source there. For every
  configuration with no left snap points the left extremum and the lower travel bound
  are \<open>+Infinity\<close>; with no right snap points the right extremum and the upper travel
  bound are \<open>-Infinity\<close>; and with the right-only example a drag update of translation
  10 from the closed position puts the offset at the upper bound 180.
\<close>

theorem empty_side_extrema_not_zero:
  "maxSnapPointLeft (props\<lparr> snapPointsLeft := [] \<rparr>) = PInf
   \<and> maxTranslateLeft (props\<lparr> snapPointsLeft := [] \<rparr>) = PInf
   \<and> maxSnapPointRight (props\<lparr> snapPointsRight := [] \<rparr>) = NInf
   \<and> maxTranslateRight (props\<lparr> snapPointsRight := [] \<rparr>) = NInf
   \<and> animStatePos (run rightOnly [GestureStart, GestureActive (pan 10 0)] initial) = Fin 180"
  by (simp add: maxSnapPointLeft_def maxTranslateLeft_def maxSnapPointRight_def
      maxTranslateRight_def js_or_def truthy_def signed_inf_def js_sub_def
      run_def rightOnly_def pan_def initial_def onStart_def onActive_def assign_def
      interrupt_def clampedVal_def Math_max2_def Math_min2_def)

section \<open>Derived signals\<close>

text \<open>
  On a side with positive snap points whose largest is a double, the extremum is that
  largest point (negated on the left) and the percentage is the rounded quotient of the
  offset by it.
\<close>

lemma percentOpen_positive_side:
  "snapPointsLeft props \<noteq> [] \<Longrightarrow> \<forall>p\<in>set (snapPointsLeft props). 0 < p
     \<Longrightarrow> double (Max (set (snapPointsLeft props)))
     \<Longrightarrow> maxSnapPointLeft props = Fin (- Max (set (snapPointsLeft props)))
       \<and> percentOpenLeft props s =
           (if js_lt (animStatePos s) (Fin 0)
            then Math_abs (js_div (animStatePos s) (Fin (- Max (set (snapPointsLeft props)))))
            else Fin 0)"
  "snapPointsRight props \<noteq> [] \<Longrightarrow> \<forall>p\<in>set (snapPointsRight props). 0 < p
     \<Longrightarrow> maxSnapPointRight props = Fin (Max (set (snapPointsRight props)))
       \<and> percentOpenRight props s =
           (if js_gt (animStatePos s) (Fin 0)
            then Math_abs (js_div (animStatePos s) (Fin (Max (set (snapPointsRight props)))))
            else Fin 0)"
proof -
  assume ne: "snapPointsLeft props \<noteq> []" and pos: "\<forall>p\<in>set (snapPointsLeft props). 0 < p"
    and d: "double (Max (set (snapPointsLeft props)))"
  define M where "M = Max (set (snapPointsLeft props))"
  have "M \<in> set (snapPointsLeft props)"
    unfolding M_def using ne by (intro Max_in) simp_all
  then have M: "0 < M" using pos by blast
  have "to_double (- 1 * M) = Fin (- M)"
    using d by (simp add: to_double_minus double_def M_def [symmetric])
  then have "js_mul (Fin (- 1)) (Fin M) = Fin (- M)"
    by simp
  moreover have "js_or (Math_max (map Fin (snapPointsLeft props))) (Fin 0) = Fin M"
    using ne M by (simp add: Math_max_Fin js_or_def truthy_def M_def [symmetric])
  ultimately have "maxSnapPointLeft props = Fin (- M)"
    by (simp add: maxSnapPointLeft_def)
  then show "maxSnapPointLeft props = Fin (- Max (set (snapPointsLeft props)))
       \<and> percentOpenLeft props s =
           (if js_lt (animStatePos s) (Fin 0)
            then Math_abs (js_div (animStatePos s) (Fin (- Max (set (snapPointsLeft props)))))
            else Fin 0)"
    unfolding M_def [symmetric] by (simp add: percentOpenLeft_def swipingLeft_def)
next
  assume ne: "snapPointsRight props \<noteq> []" and pos: "\<forall>p\<in>set (snapPointsRight props). 0 < p"
  have "Max (set (snapPointsRight props)) \<in> set (snapPointsRight props)"
    using ne by (intro Max_in) simp_all
  then have "0 < Max (set (snapPointsRight props))" using pos by blast
  then have "maxSnapPointRight props = Fin (Max (set (snapPointsRight props)))"
    using ne by (simp add: maxSnapPointRight_def Math_max_Fin js_or_def truthy_def)
  then show "maxSnapPointRight props = Fin (Max (set (snapPointsRight props)))
       \<and> percentOpenRight props s =
           (if js_gt (animStatePos s) (Fin 0)
            then Math_abs (js_div (animStatePos s) (Fin (Max (set (snapPointsRight props)))))
            else Fin 0)"
    by (simp add: percentOpenRight_def swipingRight_def)
qed

lemma to_double_quarter: "to_double (1 / 4) = Fin (1 / 4)" "to_double (1 / 2) = Fin (1 / 2)"
  using to_double_dyadic [of 1 2] to_double_dyadic [of 1 1] by (simp_all add: denorm_exp_def)

text \<open>At most one of the two percentages is nonzero.\<close>

lemma percentOpen_one_side:
  "percentOpenLeft props s = Fin 0 \<or> percentOpenRight props s = Fin 0"
  by (cases "animStatePos s")
     (auto simp add: percentOpenLeft_def percentOpenRight_def swipingLeft_def
        swipingRight_def js_gt_def)

lemma percentOpen_examples:
  "percentOpenLeft bothSides (initial\<lparr> animStatePos := Fin (- 40) \<rparr>) = Fin (1 / 2)"
  "percentOpenRight bothSides (initial\<lparr> animStatePos := Fin (- 40) \<rparr>) = Fin 0"
  "percentOpenRight bothSides (initial\<lparr> animStatePos := Fin 40 \<rparr>) = Fin (1 / 4)"
  "percentOpenLeft bothSides (initial\<lparr> animStatePos := Fin 40 \<rparr>) = Fin 0"
  by (simp_all add: percentOpenLeft_def percentOpenRight_def swipingLeft_def swipingRight_def
      js_gt_def bothSides_def maxSnapPointLeft_def maxSnapPointRight_def js_or_def truthy_def
      Math_max2_def to_double_quarter)

text \<open>
  Claim C8 says that \<open>percentOpenLeft\<close> is \<open>|offset / maxSnapLeft|\<close> when the offset
  is negative and 0 otherwise, and \<open>percentOpenRight\<close> is \<open>|offset / maxSnapRight|\<close> when
  the offset is positive and 0 otherwise, where \<open>maxSnapRight = max(snapPointsRight \<union> {0})\<close>
  is 0 on a side with no snap points. On such a side the source divides by the extremum
  of claim C1, which is infinite, not 0. The theorem evaluates the source: on the
  left-only row \<open>maxSnapPointRight\<close> is \<open>-Infinity\<close>; after \<open>open(RIGHT, 50)\<close> has
  settled the offset is 50 and \<open>percentOpenRight\<close> is \<open>|50 / -Infinity| = 0\<close>, where the
  claim's quotient \<open>|50 / 0|\<close> is \<open>Infinity\<close>; and for every configuration the percentage
  of a side with no snap points is 0 at every finite offset. On a side with positive snap
  points the extremum is the largest of them and the formula of the claim holds
  (\<open>percentOpen_positive_side\<close>, \<open>percentOpen_examples\<close>), and on every row at most one
  of the two percentages is nonzero (\<open>percentOpen_one_side\<close>).
\<close>

theorem percentOpen_empty_side_is_zero:
  "maxSnapPointRight leftOnly = NInf
   \<and> animStatePos (run leftOnly [CallOpen RIGHT (Some (Fin 50)), Settle] initial) = Fin 50
   \<and> percentOpenRight leftOnly (run leftOnly [CallOpen RIGHT (Some (Fin 50)), Settle] initial)
        = Fin 0
   \<and> Math_abs (js_div (Fin 50) (Fin 0)) = PInf
   \<and> percentOpenRight (props\<lparr> snapPointsRight := [] \<rparr>) (s\<lparr> animStatePos := Fin p \<rparr>) = Fin 0
   \<and> percentOpenLeft (props\<lparr> snapPointsLeft := [] \<rparr>) (s\<lparr> animStatePos := Fin p \<rparr>) = Fin 0"
  by (simp add: eval_defs leftOnly_def ref_open_def openRight_def newPromise_def
      percentOpenRight_def percentOpenLeft_def swipingRight_def swipingLeft_def)

section \<open>Drag updates\<close>


text \<open>
  Claim C5 says that after every drag update the offset lies within
  \<open>[minOffset, maxOffset]\<close>. With snap points on the left only (\<open>snapPointsLeft = [150]\<close>,
  no right snap points, \<open>overSwipe = 20\<close>) the upper bound is \<open>-Infinity\<close>, by the same
  \<open>Math.max(...[]) || 0\<close> as in claim C1, and the clamp returns it. The theorem evaluates
  the source: a leftward drag of 25 from the closed position activates the gesture, and
  its first update sets the offset to \<open>-Infinity\<close>, below the lower bound -170.
  With positive snap points on both sides the bounds do hold
  (\<open>clampedVal_within_bounds\<close>).
\<close>

theorem drag_update_leaves_bounds:
  "activates (activeOffsetX leftOnly (openDirection initial)) (- 25)
   \<and> maxTranslateLeft leftOnly = Fin (- 170)
   \<and> maxTranslateRight leftOnly = NInf
   \<and> animStatePos (run leftOnly [GestureStart, GestureActive (pan (- 25) 0)] initial) = NInf
   \<and> js_lt (animStatePos (run leftOnly [GestureStart, GestureActive (pan (- 25) 0)] initial))
        (maxTranslateLeft leftOnly)"
  by (simp add: run_def leftOnly_def pan_def initial_def onStart_def onActive_def assign_def
      interrupt_def clampedVal_def maxSnapPointLeft_def maxTranslateLeft_def
      maxSnapPointRight_def maxTranslateRight_def js_or_def truthy_def signed_inf_def
      js_sub_def Math_max2_def Math_min2_def activates_def activeOffsetX_def
      activeOffsetL_def activeOffsetR_def hasLeft_def hasRight_def)

section \<open>Gesture release\<close>

text \<open>The release examples of the specification.\<close>

lemma release_examples:
  "velocityModifiedPosition rightOnly (pan 120 500) (initial\<lparr> animStatePos := Fin 120 \<rparr>)
     = Fin 170"
  "closestSnapPoint rightOnly (pan 120 500) (initial\<lparr> animStatePos := Fin 120 \<rparr>) = Fin 160"
  "closestSnapPoint rightOnly (pan 60 0) (initial\<lparr> animStatePos := Fin 60 \<rparr>) = Fin 80"
  by (simp_all add: eval_defs rightOnly_def)

text \<open>
  A release where rounding decides: at the double nearest to 39.9, with velocity 1 and
  damping 10, the quotient is the double nearest to 0.1 and the sum rounds to 40, at equal
  distance from 80 and from 0; the first of the two in the scan, 80, is the target.
\<close>

lemma release_rounding_example:
  "js_div (Fin 1) (Fin 10) = Fin (3602879701896397 / 2 ^ 55)"
  "velocityModifiedPosition rightSingle (pan 0 1) (initial\<lparr> animStatePos := Fin near_39_9 \<rparr>)
     = Fin 40"
  "closestSnapPoint rightSingle (pan 0 1) (initial\<lparr> animStatePos := Fin near_39_9 \<rparr>) = Fin 80"
proof -
  have q: "to_double (1 / 10) = Fin (3602879701896397 / 2 ^ 55)"
    using to_double_scaled [of "1 / 10" 56]
    by (simp add: denorm_exp_def round_half_even_def)
  then show "js_div (Fin 1) (Fin 10) = Fin (3602879701896397 / 2 ^ 55)"
    by simp
  have "to_double (near_39_9 + 3602879701896397 / 2 ^ 55) = Fin 40"
    using to_double_scaled [of "near_39_9 + 3602879701896397 / 2 ^ 55" 47]
    by (simp add: near_39_9_def denorm_exp_def round_half_even_def)
  then show v: "velocityModifiedPosition rightSingle (pan 0 1)
      (initial\<lparr> animStatePos := Fin near_39_9 \<rparr>) = Fin 40"
    unfolding velocityModifiedPosition_def
    by (simp add: rightSingle_def pan_def q)
  show "closestSnapPoint rightSingle (pan 0 1) (initial\<lparr> animStatePos := Fin near_39_9 \<rparr>)
      = Fin 80"
    unfolding closestSnapPoint_def v
    by (simp add: allSnapPoints_def rightSingle_def closer_def diff_def js_sub_def)
qed

text \<open>
  Claim C4 says that at every gesture release the settle target is the point of
  \<open>allSnapPoints\<close> nearest to the velocity-adjusted position, the first such point in
  the order negated left points, right points, 0. Where that position is finite the source
  does so (\<open>finite_release_target_first_nearest\<close>, \<open>release_examples\<close>,
  \<open>release_rounding_example\<close>). On a row with left snap points only, the first update of a
  drag sets the offset to \<open>-Infinity\<close> (claim C5, by the extremum of claim C1); every
  distance the scan then computes is \<open>Infinity\<close>, no point is closer than the accumulator
  it starts from, and the target is that accumulator, \<open>+Infinity\<close>, which is not a snap
  point. The theorem evaluates the source on the left-only example: after a drag of -25
  and its release the spring is sent to \<open>+Infinity\<close>, and when it settles there the row
  reports \<open>RIGHT\<close> with snap distance \<open>Infinity\<close>.
\<close>

theorem release_after_left_only_drag:
  "animStatePos (run leftOnly [GestureStart, GestureActive (pan (- 25) 0)] initial) = NInf
   \<and> allSnapPoints leftOnly = [- 150, 0]
   \<and> velocityModifiedPosition leftOnly (pan (- 25) 0)
        (run leftOnly [GestureStart, GestureActive (pan (- 25) 0)] initial) = NInf
   \<and> closestSnapPoint leftOnly (pan (- 25) 0)
        (run leftOnly [GestureStart, GestureActive (pan (- 25) 0)] initial) = PInf
   \<and> PInf \<notin> set (map Fin (allSnapPoints leftOnly))
   \<and> animation (run leftOnly
        [GestureStart, GestureActive (pan (- 25) 0), GestureEnd (pan (- 25) 0)] initial)
        = Some (PInf, OnComplete PInf)
   \<and> animStatePos (run leftOnly
        [GestureStart, GestureActive (pan (- 25) 0), GestureEnd (pan (- 25) 0), Settle] initial)
        = PInf
   \<and> changes (run leftOnly
        [GestureStart, GestureActive (pan (- 25) 0), GestureEnd (pan (- 25) 0), Settle] initial)
        = [(RIGHT, PInf)]"
  by (simp add: eval_defs leftOnly_def)



section \<open>Activation gating\<close>

text \<open>
  Claim C7 says that the activation offsets are \<open>-activationThreshold\<close> on the left when
  there are left snap points or the row is open to the right and effectively infinite
  otherwise, symmetrically on the right, so that a side with no snap points that is not
  open cannot be dragged open while a row already open can always be dragged back toward
  closed. The offsets are as the claim says (\<open>activeOffsetX_thresholds\<close>,
  \<open>empty_side_never_activates\<close>), and a drag from the closed row with no left snap points
  never puts the offset below 0 (\<open>drag_no_left_from_closed\<close>). But a row that is open to
  the right with no left snap points cannot be dragged back: its lower travel bound is the
  \<open>+Infinity\<close> of claim C1, and every drag update puts the offset at the upper travel
  bound whatever the translation. The theorem evaluates the source on the right-only
  example: a gesture opens the row, which settles at 160 with direction \<open>RIGHT\<close>; a
  leftward translation of 30 passes the activation offset -20; and the update for it, as
  for the translations -100 and -160 after it, sets the offset to 180, further from
  closed.
\<close>

theorem open_row_drag_jumps_to_bound:
  "animStatePos (run rightOnly
      [GestureStart, GestureActive (pan 30 0), GestureEnd (pan 30 0), Settle] initial) = Fin 160
   \<and> openDirection (run rightOnly
      [GestureStart, GestureActive (pan 30 0), GestureEnd (pan 30 0), Settle] initial) = RIGHT
   \<and> activeOffsetX rightOnly RIGHT = (- 20, 20)
   \<and> activates (activeOffsetX rightOnly RIGHT) (- 30)
   \<and> animStatePos (drag rightOnly [- 30] (run rightOnly
      [GestureStart, GestureActive (pan 30 0), GestureEnd (pan 30 0), Settle] initial)) = Fin 180
   \<and> animStatePos (drag rightOnly [- 30, - 100, - 160] (run rightOnly
      [GestureStart, GestureActive (pan 30 0), GestureEnd (pan 30 0), Settle] initial)) = Fin 180
   \<and> clampedVal (props\<lparr> snapPointsLeft := [] \<rparr>) tx (Fin st)
        = maxTranslateRight (props\<lparr> snapPointsLeft := [] \<rparr>)"
proof -
  have s: "run rightOnly [GestureStart, GestureActive (pan 30 0), GestureEnd (pan 30 0), Settle]
      initial
    = \<lparr> animStatePos = Fin 160, isGestureActive = False, openDirection = RIGHT,
        startX = Fin 0, animation = None, nextPromise = 0, settlements = [],
        changes = [(RIGHT, Fin 160)] \<rparr>"
    by (simp add: eval_defs rightOnly_def Let_def)
  have a: "activeOffsetX rightOnly RIGHT = (- 20, 20)"
    by (simp add: activeOffsetX_def activeOffsetL_def activeOffsetR_def hasRight_def
        rightOnly_def)
  have c: "clampedVal rightOnly tx (Fin st) = Fin 180" for tx st
    using clampedVal_no_left [of rightOnly tx st]
    by (simp add: rightOnly_def maxTranslateRight_def maxSnapPointRight_def js_or_def truthy_def
        Math_max2_def)
  have g: "clampedVal (props\<lparr> snapPointsLeft := [] \<rparr>) tx (Fin st)
        = maxTranslateRight (props\<lparr> snapPointsLeft := [] \<rparr>)"
    by (rule clampedVal_no_left) simp
  show ?thesis
    unfolding s using a g
    by (simp add: drag_def activates_def onStart_def onActive_def assign_def interrupt_def c)
qed

section \<open>Imperative calls\<close>

text \<open>
  Claim C10: for every snap-point argument, \<open>open\<close> of the imperative handle with
  direction \<open>NONE\<close>, the only direction other than \<open>LEFT\<close> and \<open>RIGHT\<close>, is \<open>close()\<close>:
  the same promise and the same state, whatever the argument, with a spring toward 0 in
  flight whose callback resolves the returned promise.
\<close>

theorem ref_open_NONE_is_close:
  "ref_open props NONE snapPoint s = close s
   \<and> animation (snd (ref_open props NONE snapPoint s))
       = Some (Fin 0, ResolvePromiseIfFinished (fst (ref_open props NONE snapPoint s)))"
  by (simp add: ref_open_def close_def newPromise_def withSpring_def)

text \<open>
  Claim C2 says that \<open>close()\<close> at offset 80 with \<open>openDirection = RIGHT\<close> and no gesture
  active resolves its promise once at the settle at 0, and that the settle-completion
  notification has then run: \<open>openDirection = NONE\<close> and \<open>percentOpenRight = 0\<close>. The
  callback that \<open>close\<close> (like \<open>openLeft\<close> and \<open>openRight\<close>) hands to the spring only
  resolves the promise; \<open>onAnimationEnd\<close> is called from the gesture release alone. The
  theorem evaluates the source from any state set to offset 80, direction \<open>RIGHT\<close>, no
  gesture and no animation in flight: after \<open>close()\<close> and the natural settle the promise
  is resolved once, the offset and \<open>percentOpenRight\<close> are 0, but \<open>openDirection\<close> is
  still \<open>RIGHT\<close> and \<open>onChange\<close> has not been called.
\<close>

theorem close_settle_keeps_openDirection:
  "(let s0 = s\<lparr> animStatePos := Fin 80, openDirection := RIGHT, isGestureActive := False,
                  animation := None \<rparr>;
        (p, s1) = close s0;
        s2 = settle s1
    in animation s1 = Some (Fin 0, ResolvePromiseIfFinished p)
     \<and> settlements s2 = settlements s @ [Resolved p]
     \<and> animation s2 = None
     \<and> animStatePos s2 = Fin 0
     \<and> percentOpenRight props s2 = Fin 0
     \<and> openDirection s2 = RIGHT
     \<and> changes s2 = changes s)"
  by (simp add: close_def newPromise_def withSpring_def interrupt_def settle_def
      percentOpenRight_def swipingRight_def js_gt_def)

text \<open>
  Claim C3 says that of two imperative calls in succession neither promise stays pending
  for ever: when the row settles naturally every pending promise resolves, and two
  \<open>open(RIGHT, 80)\<close> in immediate succession both resolve exactly once. In the source
  each call's callback resolves its own promise, and only when it is called with
  \<open>isFinished\<close>; the second call interrupts the spring of the first, whose callback is
  then called with \<open>false\<close> and dropped. The counterexample runs three
  \<open>open(RIGHT, 80)\<close> (the first sets the row animating to 80, the other two are
  promises 1 and 2) and the natural settle: promise 2 is resolved, promise 1 is not.
\<close>

theorem double_open_first_promise_pending:
  "fst (ref_open bothSides RIGHT (Some (Fin 80))
         (run bothSides [CallOpen RIGHT (Some (Fin 80))] initial)) = 1
   \<and> fst (ref_open bothSides RIGHT (Some (Fin 80))
         (run bothSides [CallOpen RIGHT (Some (Fin 80)), CallOpen RIGHT (Some (Fin 80))] initial)) = 2
   \<and> animation (run bothSides [CallOpen RIGHT (Some (Fin 80)), CallOpen RIGHT (Some (Fin 80)),
         CallOpen RIGHT (Some (Fin 80))] initial) = Some (Fin 80, ResolvePromiseIfFinished 2)
   \<and> settlements (run bothSides [CallOpen RIGHT (Some (Fin 80)), CallOpen RIGHT (Some (Fin 80)),
         CallOpen RIGHT (Some (Fin 80)), Settle] initial) = [Resolved 2]
   \<and> count_list (settlements (run bothSides [CallOpen RIGHT (Some (Fin 80)),
         CallOpen RIGHT (Some (Fin 80)), CallOpen RIGHT (Some (Fin 80)), Settle] initial))
        (Resolved 1) = 0"
  by (simp add: run_def ref_open_def openRight_def newPromise_def withSpring_def interrupt_def
      settle_def initial_def)

text \<open>
  Claim C3 as amended: for every two imperative calls in succession, from any state the
  row can reach and whatever events follow, no promise is ever rejected, every promise is
  resolved at most once, the promise of the first call, superseded before it settled, is
  never resolved, and the natural settle of the second call's spring resolves the second
  promise and no other; that promise then counts as resolved exactly once whatever
  follows.
\<close>

theorem superseded_promise_never_resolves:
  "(let s0 = run props evs0 initial;
        (p1, s1) = ref_open props od1 sp1 s0;
        (p2, s2) = ref_open props od2 sp2 s1;
        sf = run props evs s2
    in p2 = Suc p1
     \<and> (\<forall>q. Rejected q \<notin> set (settlements sf))
     \<and> (\<forall>q. count_list (settlements sf) (Resolved q) \<le> 1)
     \<and> count_list (settlements sf) (Resolved p1) = 0
     \<and> settlements (settle s2) = settlements s0 @ [Resolved p2]
     \<and> count_list (settlements (run props evs (settle s2))) (Resolved p2) = 1)"
proof -
  let ?s0 = "run props evs0 initial"
  obtain t1 where t1: "ref_open props od1 sp1 ?s0 = newPromise t1 ?s0"
    using ref_open_newPromise by blast
  let ?s1 = "snd (newPromise t1 ?s0)"
  obtain t2 where t2: "ref_open props od2 sp2 ?s1 = newPromise t2 ?s1"
    using ref_open_newPromise by blast
  let ?s2 = "snd (newPromise t2 ?s1)"
  let ?sf = "run props evs ?s2"
  let ?p1 = "fst (newPromise t1 ?s0)"
  let ?p2 = "fst (newPromise t2 ?s1)"
  have wf0: "well_formed ?s0"
    by (rule well_formed_run [OF well_formed_initial])
  then have wf2: "well_formed ?s2"
    by (intro well_formed_newPromise)
  then have wf: "well_formed ?sf"
    by (rule well_formed_run)
  have "abandoned ?p1 ?sf"
    by (rule abandoned_run [OF superseded_abandoned [OF wf0]])
  then have never: "count_list (settlements ?sf) (Resolved ?p1) = 0"
    by (simp add: abandoned_iff)
  have norej: "\<forall>q. Rejected q \<notin> set (settlements ?sf)"
    using wf by (auto simp: well_formed_iff)
  have once: "\<forall>q. count_list (settlements ?sf) (Resolved q) \<le> 1"
    using wf by (simp add: well_formed_iff distinct_count_list)
  have last: "settlements (settle ?s2) = settlements ?s0 @ [Resolved ?p2]"
    by (simp add: settle_def newPromise_def withSpring_def)
  have suc: "?p2 = Suc ?p1"
    by (simp add: newPromise_def withSpring_def)
  have "well_formed (run props evs (settle ?s2))"
    by (intro well_formed_run well_formed_settle wf2)
  moreover have "Resolved ?p2 \<in> set (settlements (run props evs (settle ?s2)))"
    by (rule settlements_run_mono) (simp add: last)
  ultimately have exactly: "count_list (settlements (run props evs (settle ?s2))) (Resolved ?p2) = 1"
    by (simp add: well_formed_iff distinct_count_list)
  show ?thesis
    using never norej once last suc exactly by (simp add: t1 t2 Let_def split_beta)
qed

end
